theory Spec2Isabelle
  imports Main "HOL-Library.Word"
begin

section \<open>Bytes, C strings and process aborts\<close>

text \<open>
  A C \<open>char\<close> is an Isabelle \<open>char\<close> (one byte); a buffer is a \<open>char list\<close>.
  The named bytes are the ones \<open>main.c\<close> tests for.
\<close>

abbreviation NUL :: char where "NUL \<equiv> CHR 0x00"
abbreviation ETX :: char where "ETX \<equiv> CHR 0x03"
abbreviation BS :: char where "BS \<equiv> CHR 0x08"
abbreviation TAB :: char where "TAB \<equiv> CHR 0x09"
abbreviation LF :: char where "LF \<equiv> CHR 0x0A"
abbreviation CR :: char where "CR \<equiv> CHR 0x0D"
abbreviation SPC :: char where "SPC \<equiv> CHR 0x20"
abbreviation DQUOTE :: char where "DQUOTE \<equiv> CHR 0x22"
abbreviation SQUOTE :: char where "SQUOTE \<equiv> CHR 0x27"
abbreviation DEL :: char where "DEL \<equiv> CHR 0x7F"

type_synonym addr = nat

text \<open>
  Every \<open>assert\<close> of the source is a branch that ends the process. \<open>Invalid_free\<close> is
  the model's check that \<open>free\<close> is only called on a live allocation.
\<close>

datatype error = Assertion_failed string | Invalid_free addr

section \<open>Response slots and the write callback\<close>

text \<open>
  \<open>struct curl_response\<close>: \<open>response\<close> is \<open>None\<close> for the NULL pointer and otherwise the
  allocated buffer, all of its bytes; \<open>size_resp\<close> is the \<open>size_t\<close> field \<open>size\<close> (a \<open>nat\<close>: a buffer
  of \<open>2 ^ 64\<close> bytes does not exist).
\<close>

record curl_response =
  response :: "string option"
  size_resp :: nat

definition zero_response :: curl_response where
  "zero_response = \<lparr>response = None, size_resp = 0\<rparr>"

text \<open>
  \<open>realloc(p, n)\<close>. The allocator is the environment: \<open>None\<close> when it fails (it returns
  NULL), \<open>Some junk\<close> when it succeeds, \<open>junk i\<close> being the byte found at offset \<open>i\<close> of
  the part of the new block that the old one did not cover.
\<close>

definition realloc :: "(nat \<Rightarrow> char) option \<Rightarrow> string option \<Rightarrow> nat \<Rightarrow> string option" where
  "realloc env p n =
     (case env of
        None \<Rightarrow> None
      | Some junk \<Rightarrow>
          Some (map (\<lambda>i. case p of
                            None \<Rightarrow> junk i
                          | Some old \<Rightarrow> if i < length old then old ! i else junk i) [0..<n]))"

text \<open>\<open>memcpy(&dst[off], src, n)\<close>, for a source of at least \<open>n\<close> bytes.\<close>

definition memcpy :: "string \<Rightarrow> nat \<Rightarrow> string \<Rightarrow> nat \<Rightarrow> string" where
  "memcpy dst off src n = take off dst @ take n src @ drop (off + n) dst"

text \<open>
  \<open>write_cb(data, size, nmemb, clientp)\<close> (lines 80-93), \<open>mem\<close> being the slot that
  \<open>clientp\<close> points to. It returns \<open>realsize\<close> and the slot as it leaves it.
\<close>

definition write_cb ::
  "(nat \<Rightarrow> char) option \<Rightarrow> string \<Rightarrow> nat \<Rightarrow> nat \<Rightarrow> curl_response \<Rightarrow> error + (nat \<times> curl_response)" where
  "write_cb env data sz nmemb mem =
     (let realsize = sz * nmemb in
      case realloc env (response mem) (size_resp mem + realsize + 1) of
        None \<Rightarrow> Inl (Assertion_failed ''ptr'')
      | Some ptr \<Rightarrow>
          (let copied = memcpy ptr (size_resp mem) data realsize;
               size' = size_resp mem + realsize
           in Inr (realsize, \<lparr>response = Some (copied[size' := NUL]), size_resp = size'\<rparr>)))"

text \<open>
  The transfer engine calls the sink once per chunk, with \<open>size = 1\<close> and \<open>nmemb\<close> the
  length of the chunk (libcurl's contract for \<open>CURLOPT_WRITEFUNCTION\<close>). A sink call of the
  environment is the allocator's answer and the chunk.
\<close>

type_synonym sink_call = "(nat \<Rightarrow> char) option \<times> string"

fun deliver :: "sink_call list \<Rightarrow> curl_response \<Rightarrow> error + curl_response" where
  "deliver [] mem = Inr mem"
| "deliver ((env, data) # calls) mem =
     (case write_cb env data 1 (length data) mem of
        Inl e \<Rightarrow> Inl e
      | Inr (n, mem') \<Rightarrow> deliver calls mem')"

text \<open>The bytes a slot holds: the first \<open>size\<close> bytes of its buffer.\<close>

definition payload :: "curl_response \<Rightarrow> string" where
  "payload mem = (case response mem of None \<Rightarrow> [] | Some buf \<Rightarrow> take (size_resp mem) buf)"

text \<open>
  A slot as \<open>write_cb\<close> leaves it, or as \<open>init_state\<close> zeroes it: no buffer and size 0, or a
  buffer of \<open>size + 1\<close> bytes whose last byte is the terminator.
\<close>

definition slot_ok :: "curl_response \<Rightarrow> bool" where
  "slot_ok mem =
     (case response mem of
        None \<Rightarrow> size_resp mem = 0
      | Some buf \<Rightarrow> length buf = size_resp mem + 1 \<and> buf ! size_resp mem = NUL)"

section \<open>The shared state\<close>

text \<open>
  \<open>struct pipe_event\<close>: the pointer \<open>url\<close> to a string that \<open>strdup\<close> allocated. The
  strings live in \<open>heap\<close>, a map from addresses to the live allocations.
\<close>

record pipe_event =
  url :: addr

text \<open>
  The easy handle of \<open>network_thread\<close>: the URL that \<open>CURLOPT_URL\<close> copied, the slot that
  \<open>CURLOPT_WRITEDATA\<close> points to (an index into \<open>responses\<close>), and whether the handle is
  added to the multi handle.
\<close>

record easy_handle =
  easy_url :: "string option"
  easy_writedata :: "nat option"
  easy_added :: bool

text \<open>
  What the program does to the world, in program order: a sink call on a slot, the
  increment of \<open>latest_response\<close> (to the given value), a byte written to the wake pipe,
  a transfer added (with its slot), and the steps of \<open>cleanup_state\<close>.
\<close>

datatype event =
    Ev_sink nat
  | Ev_publish nat
  | Ev_notify
  | Ev_add nat
  | Ev_done
  | Ev_wakeup
  | Ev_join
  | Ev_read pipe_event
  | Ev_free addr
  | Ev_close

text \<open>The terminal output, one item per primitive of lines 27-33, \<open>putchar\<close> and \<open>fflush\<close>.\<close>

datatype term_op = Term_clear | Term_set_cursor int int | Putchar char | Fflush

text \<open>
  \<open>struct global_state\<close>, with the kernel objects behind its descriptors and the locals
  of the two threads:
  \<^item> \<open>pipe\<close>: the events written to \<open>pipe[WRITE_END]\<close> and not yet read, oldest first;
  \<^item> \<open>notify_ui_pipe\<close>: the bytes written to the wake pipe and not yet read;
  \<^item> \<open>scroll\<close>: a C \<open>int\<close>, here an unbounded \<open>int\<close> (C leaves its overflow undefined);
  \<^item> \<open>done_flag\<close>: the field \<open>done\<close>;
  \<^item> \<open>responses\<close>, \<open>latest_response\<close>: the member \<open>buffer\<close>;
  \<^item> \<open>easy\<close>, \<open>prev_running_handles\<close>: locals of \<open>network_thread\<close>, and
    \<open>network_running\<close>: the thread has not left its function;
  \<^item> \<open>heap\<close>, \<open>next_addr\<close>: the strings \<open>strdup\<close> allocated and \<open>free\<close> has not released,
    and the address the next allocation gets (no address is handed out twice);
  \<^item> \<open>stdin\<close>: the keys typed and not yet read; \<open>stdout\<close>: the terminal output so far;
  \<^item> \<open>fds_open\<close>: the four pipe descriptors are open;
  \<^item> \<open>trace\<close>: the events so far.
\<close>

record global_state =
  pipe :: "pipe_event list"
  notify_ui_pipe :: string
  scroll :: int
  done_flag :: bool
  responses :: "curl_response list"
  latest_response :: nat
  easy :: easy_handle
  prev_running_handles :: int
  network_running :: bool
  heap :: "addr \<rightharpoonup> string"
  next_addr :: addr
  stdin :: string
  stdout :: "term_op list"
  fds_open :: bool
  trace :: "event list"

text \<open>
  \<open>init_state\<close> (lines 147-160) zeroes the struct, opens the pipes and starts the worker,
  which initialises its locals (lines 202-207) before its loop.
\<close>

definition init_state :: global_state where
  "init_state =
     \<lparr>pipe = [], notify_ui_pipe = [], scroll = 0, done_flag = False,
      responses = replicate 1024 zero_response, latest_response = 0,
      easy = \<lparr>easy_url = None, easy_writedata = None, easy_added = False\<rparr>,
      prev_running_handles = - 1, network_running = True,
      heap = Map.empty, next_addr = 0, stdin = [], stdout = [], fds_open = True,
      trace = []\<rparr>"

definition log_event :: "event list \<Rightarrow> global_state \<Rightarrow> global_state" where
  "log_event evs st = st\<lparr>trace := trace st @ evs\<rparr>"

text \<open>
  \<open>notify_main\<close> (lines 21-24): one zero byte to the wake pipe. The pipe of the model
  takes every byte, so \<open>ret == 1\<close> holds.
\<close>

definition notify_main :: "global_state \<Rightarrow> global_state" where
  "notify_main st = log_event [Ev_notify] (st\<lparr>notify_ui_pipe := notify_ui_pipe st @ [NUL]\<rparr>)"

definition sigwinch_handler :: "global_state \<Rightarrow> global_state" where
  "sigwinch_handler st = notify_main st"

text \<open>\<open>free(p)\<close> for a pointer that is not NULL: the allocation must be live.\<close>

definition free :: "addr \<Rightarrow> global_state \<Rightarrow> error + global_state" where
  "free a st =
     (case heap st a of
        None \<Rightarrow> Inl (Invalid_free a)
      | Some s \<Rightarrow> Inr (log_event [Ev_free a] (st\<lparr>heap := (heap st)(a := None)\<rparr>)))"

section \<open>The network thread\<close>

text \<open>
  What the transfer engine answers in one iteration of the worker's loop:
  \<open>curl_multi_perform\<close> calls the sink of the added handle (\<open>sink_calls\<close>), returns
  \<open>CURLM_OK\<close> or not (\<open>perform_ok\<close>) and stores \<open>running_handles\<close>; \<open>curl_multi_poll\<close>
  returns \<open>CURLM_OK\<close> or not (\<open>poll_ok\<close>).
\<close>

record engine_obs =
  sink_calls :: "sink_call list"
  perform_ok :: bool
  running_handles :: int
  poll_ok :: bool

text \<open>
  \<open>curl_multi_perform\<close>: the sink runs on the slot \<open>CURLOPT_WRITEDATA\<close> names, for a handle
  that is added; without one, no callback is made.
\<close>

definition curl_multi_perform :: "engine_obs \<Rightarrow> global_state \<Rightarrow> error + global_state" where
  "curl_multi_perform ob st =
     (case easy_writedata (easy st) of
        None \<Rightarrow> Inr st
      | Some t \<Rightarrow>
          if \<not> easy_added (easy st) then Inr st
          else (case deliver (sink_calls ob) (responses st ! t) of
                  Inl e \<Rightarrow> Inl e
                | Inr r \<Rightarrow>
                    Inr (log_event (map (\<lambda>c. Ev_sink t) (sink_calls ob))
                           (st\<lparr>responses := (responses st)[t := r]\<rparr>))))"

text \<open>Lines 222-228, the body of \<open>if (prev_running_handles == 1 && running_handles == 0)\<close>.\<close>

definition transfer_completed :: "global_state \<Rightarrow> error + global_state" where
  "transfer_completed st =
     (let st' = log_event [Ev_publish (latest_response st + 1)]
                  (st\<lparr>latest_response := latest_response st + 1\<rparr>)
      in if latest_response st' = 1024 then Inl (Assertion_failed ''Max responses filled!'')
         else Inr (notify_main st'))"

text \<open>
  Lines 239-253, the body of \<open>if (running_handles == 0 && pipe_waiter.revents &
  CURL_WAIT_POLLIN)\<close>: the event is read, the handle is pointed at the URL and at the slot
  \<open>responses[latest_response]\<close> and added, and the URL string is released.
\<close>

definition start_transfer :: "global_state \<Rightarrow> error + global_state" where
  "start_transfer st =
     (case pipe st of
        [] \<Rightarrow> Inl (Assertion_failed ''ret == sizeof(read_event)'')
      | read_event # rest \<Rightarrow>
          (let st1 = log_event [Ev_read read_event] (st\<lparr>pipe := rest\<rparr>);
               st2 = log_event [Ev_add (latest_response st1)]
                       (st1\<lparr>easy := \<lparr>easy_url = heap st1 (url read_event),
                                      easy_writedata = Some (latest_response st1),
                                      easy_added = True\<rparr>\<rparr>)
           in free (url read_event) st2))"

text \<open>
  One pass through the body of \<open>while (!state->done)\<close> (lines 210-255); the Boolean says
  that the pass left the loop by \<open>break\<close>. \<open>curl_multi_poll\<close> reports the command pipe
  readable exactly when it holds an event.
\<close>

definition loop_body :: "engine_obs \<Rightarrow> global_state \<Rightarrow> error + (bool \<times> global_state)" where
  "loop_body ob st =
     (case curl_multi_perform ob st of
        Inl e \<Rightarrow> Inl e
      | Inr st1 \<Rightarrow>
          if \<not> perform_ok ob then Inr (True, st1)
          else (case (if prev_running_handles st1 = 1 \<and> running_handles ob = 0
                      then transfer_completed st1 else Inr st1) of
                  Inl e \<Rightarrow> Inl e
                | Inr st2 \<Rightarrow>
                    if \<not> poll_ok ob then Inr (True, st2)
                    else (case (if running_handles ob = 0 \<and> pipe st2 \<noteq> []
                                then start_transfer st2 else Inr st2) of
                            Inl e \<Rightarrow> Inl e
                          | Inr st3 \<Rightarrow>
                              Inr (False, st3\<lparr>prev_running_handles := running_handles ob\<rparr>))))"

text \<open>Lines 258-265: what the thread does after its loop.\<close>

definition thread_exit :: "global_state \<Rightarrow> error + global_state" where
  "thread_exit st =
     (if \<not> done_flag st
      then Inl (Assertion_failed ''CURL returned failure without being interrupted!'')
      else Inr (st\<lparr>easy := (easy st)\<lparr>easy_added := False\<rparr>, network_running := False\<rparr>))"

text \<open>One iteration of the worker, from the loop test on; a thread that has left does nothing.\<close>

definition network_iter :: "engine_obs \<Rightarrow> global_state \<Rightarrow> error + global_state" where
  "network_iter ob st =
     (if \<not> network_running st then Inr st
      else if done_flag st then thread_exit st
      else (case loop_body ob st of
              Inl e \<Rightarrow> Inl e
            | Inr (brk, st') \<Rightarrow> if brk then thread_exit st' else Inr st'))"

text \<open>\<open>network_thread\<close> against the engine's answers, as far as they reach.\<close>

fun network_thread :: "engine_obs list \<Rightarrow> global_state \<Rightarrow> error + global_state" where
  "network_thread [] st = Inr st"
| "network_thread (ob # obs) st =
     (case network_iter ob st of
        Inl e \<Rightarrow> Inl e
      | Inr st' \<Rightarrow> network_thread obs st')"

section \<open>Keys\<close>

text \<open>
  \<open>strlen\<close> and the C string a buffer holds: the bytes before the first zero byte. (On a
  buffer without one C reads past its end; the model stops at the end.)
\<close>

definition c_str :: "string \<Rightarrow> string" where
  "c_str buf = takeWhile (\<lambda>c. c \<noteq> NUL) buf"

definition strlen :: "string \<Rightarrow> nat" where
  "strlen buf = length (c_str buf)"

text \<open>\<open>isprint\<close> in the C locale.\<close>

definition isprint :: "char \<Rightarrow> bool" where
  "isprint c = (32 \<le> (of_char c :: nat) \<and> (of_char c :: nat) \<le> 126)"

definition curl_multi_wakeup :: "global_state \<Rightarrow> global_state" where
  "curl_multi_wakeup st = log_event [Ev_wakeup] st"

text \<open>
  \<open>send_request\<close> (lines 268-281): \<open>strdup\<close> allocates a copy of the C string, the event
  holding its address goes into the command pipe, and the worker is woken. The pipe of the
  model takes every event, so \<open>ret == sizeof(event)\<close> holds.
\<close>

definition send_request :: "global_state \<Rightarrow> string \<Rightarrow> global_state" where
  "send_request st buf =
     (let a = next_addr st;
          event = \<lparr>url = a\<rparr>;
          st1 = st\<lparr>heap := (heap st)(a \<mapsto> c_str buf), next_addr := a + 1\<rparr>;
          st2 = st1\<lparr>pipe := pipe st1 @ [event]\<rparr>
      in curl_multi_wakeup st2)"

text \<open>\<open>read_char\<close> (lines 283-312): the state and the buffer \<open>buf\<close> as the call leaves them.\<close>

definition read_char :: "global_state \<Rightarrow> string \<Rightarrow> char \<Rightarrow> global_state \<times> string" where
  "read_char st buf c =
     (let len = strlen buf in
      if c = CR then (send_request st buf, replicate 128 NUL)
      else if c = DEL \<or> c = BS then (st, if len > 0 then buf[len - 1 := NUL] else buf)
      else if c = DQUOTE then (st\<lparr>scroll := scroll st - 1\<rparr>, buf)
      else if c = SQUOTE then (st\<lparr>scroll := scroll st + 1\<rparr>, buf)
      else (st, if len + 1 < 128 \<and> isprint c then buf[len := c] else buf))"

section \<open>The renderer\<close>

text \<open>
  \<open>struct winsize\<close> as \<open>ioctl(TIOCGWINSZ)\<close> fills it (two \<open>unsigned short\<close>), and
  \<open>struct wsize\<close>, whose fields are \<open>int\<close>.
\<close>

record winsize =
  ws_row :: "16 word"
  ws_col :: "16 word"

record wsize =
  rows :: int
  cols :: int

definition get_win_size :: "winsize \<Rightarrow> wsize" where
  "get_win_size ws = \<lparr>rows = uint (ws_row ws), cols = uint (ws_col ws)\<rparr>"

text \<open>
  \<open>strchr(s, c)\<close> on the bytes from the pointer \<open>s\<close> on: the offset of the first \<open>c\<close>, or
  \<open>None\<close> (NULL) when the terminator comes first.
\<close>

fun strchr :: "string \<Rightarrow> char \<Rightarrow> nat option" where
  "strchr [] c = None"
| "strchr (x # xs) c =
     (if x = c then Some 0 else if x = NUL then None else map_option Suc (strchr xs c))"

text \<open>
  The loop of lines 352-355: \<open>buf\<close> is the slot's buffer, \<open>begin\<close> and \<open>newline\<close> are
  offsets into it, \<open>ncols\<close> is \<open>size.cols\<close>.
\<close>

function put_line :: "string \<Rightarrow> nat \<Rightarrow> nat \<Rightarrow> nat \<Rightarrow> nat \<Rightarrow> term_op list" where
  "put_line buf newline ncols i begin =
     (if begin \<noteq> newline + 1 \<and> i < ncols
      then Putchar (if buf ! begin = TAB then SPC else buf ! begin)
             # put_line buf newline ncols (i + 1) (begin + 1)
      else [])"
  by pat_completeness auto
termination
  by (relation "measure (\<lambda>(buf, newline, ncols, i, begin). ncols - i)") auto

text \<open>Lines 344-347: where the line that begins at \<open>start\<close> ends.\<close>

definition find_newline :: "string \<Rightarrow> nat \<Rightarrow> nat \<Rightarrow> nat" where
  "find_newline buf sz start =
     (case strchr (drop start buf) LF of
        Some k \<Rightarrow> start + k
      | None \<Rightarrow> sz)"

text \<open>
  The loop of lines 332-357 over one response, \<open>index\<close> counting down; the state is
  \<open>(y, n_skip, out)\<close>, \<open>out\<close> being what the call has printed so far. \<open>break\<close> returns
  the state, \<open>continue\<close> goes on with the next \<open>index\<close>.
\<close>

fun line_loop :: "string \<Rightarrow> nat \<Rightarrow> nat \<Rightarrow> nat \<Rightarrow> int \<times> int \<times> term_op list \<Rightarrow> int \<times> int \<times> term_op list" where
  "line_loop buf sz ncols 0 s = s"
| "line_loop buf sz ncols (Suc start) (y, n_skip, out) =
     (if start = 0 \<or> buf ! (start - 1) = LF then
        if y \<le> 0 then (y, n_skip, out)
        else if n_skip > 0 then line_loop buf sz ncols start (y, n_skip - 1, out)
        else line_loop buf sz ncols start
               (y - 1, n_skip - 1,
                out @ Term_set_cursor y 1 # put_line buf (find_newline buf sz start) ncols 0 start)
      else line_loop buf sz ncols start (y, n_skip, out))"

text \<open>The loop of lines 324-358 over the responses, \<open>i\<close> counting down.\<close>

fun resp_loop :: "curl_response list \<Rightarrow> nat \<Rightarrow> nat \<Rightarrow> int \<times> int \<times> term_op list \<Rightarrow> int \<times> int \<times> term_op list" where
  "resp_loop rs ncols 0 s = s"
| "resp_loop rs ncols (Suc j) s =
     (case response (rs ! j) of
        None \<Rightarrow> resp_loop rs ncols j s
      | Some buf \<Rightarrow> resp_loop rs ncols j (line_loop buf (size_resp (rs ! j)) ncols (size_resp (rs ! j)) s))"

text \<open>
  \<open>redraw\<close> (lines 314-364): everything the call writes to the terminal. \<open>ws\<close> is what
  \<open>ioctl\<close> reports. \<open>printf("%.*s", size.cols, buf)\<close> writes at most \<open>size.cols\<close> bytes of
  the C string.
\<close>

definition redraw :: "global_state \<Rightarrow> winsize \<Rightarrow> string \<Rightarrow> term_op list" where
  "redraw st ws buf =
     (let sz = get_win_size ws;
          (y, n_skip, out) =
             resp_loop (responses st) (nat (cols sz)) (latest_response st)
               (rows sz - 1, scroll st, [Term_clear])
      in out @ Term_set_cursor (rows sz) 1 # map Putchar (take (nat (cols sz)) (c_str buf)) @ [Fflush])"

section \<open>The main loop and shutdown\<close>

datatype control = Continue | Break | Blocked

text \<open>
  One pass through the loop of \<open>main\<close> (lines 382-414), \<open>buf\<close> being its local buffer.
  \<open>poll\<close> reports a descriptor readable exactly when it holds a byte, and blocks while
  neither does (\<open>Blocked\<close>: the pass has drawn and waits).
\<close>

definition main_iter :: "winsize \<Rightarrow> global_state \<Rightarrow> string \<Rightarrow> error + (control \<times> global_state \<times> string)" where
  "main_iter ws st buf =
     (let st1 = st\<lparr>stdout := stdout st @ redraw st ws buf\<rparr>;
          stdin_in = (stdin st1 \<noteq> []);
          notify_in = (notify_ui_pipe st1 \<noteq> [])
      in if \<not> stdin_in \<and> \<not> notify_in then Inr (Blocked, st1, buf)
         else (case (if stdin_in
                     then (case stdin st1 of
                             [] \<Rightarrow> Inl (Assertion_failed ''ret == 1'')
                           | c # keys \<Rightarrow>
                               if c = ETX then Inr (Break, st1\<lparr>stdin := keys\<rparr>, buf)
                               else (case read_char (st1\<lparr>stdin := keys\<rparr>) buf c of
                                       (st2, buf2) \<Rightarrow> Inr (Continue, st2, buf2)))
                     else Inr (Continue, st1, buf)) of
                 Inl e \<Rightarrow> Inl e
               | Inr (Break, st2, buf2) \<Rightarrow> Inr (Break, st2, buf2)
               | Inr (ctl, st2, buf2) \<Rightarrow>
                   if notify_in
                   then (case notify_ui_pipe st2 of
                           [] \<Rightarrow> Inl (Assertion_failed ''ret == 1'')
                         | b # bytes \<Rightarrow> Inr (Continue, st2\<lparr>notify_ui_pipe := bytes\<rparr>, buf2))
                   else Inr (Continue, st2, buf2)))"

text \<open>
  \<open>pthread_join\<close> in \<open>cleanup_state\<close>: \<open>done\<close> is set, so the worker leaves at its next
  loop test. \<open>inflight\<close> is the engine's answer for the pass the worker was in when the
  flag was set, if it was in one.
\<close>

definition pthread_join :: "engine_obs option \<Rightarrow> global_state \<Rightarrow> error + global_state" where
  "pthread_join inflight st =
     (case (case inflight of
              None \<Rightarrow> thread_exit st
            | Some ob \<Rightarrow>
                (case loop_body ob st of
                   Inl e \<Rightarrow> Inl e
                 | Inr (brk, st') \<Rightarrow> thread_exit st')) of
        Inl e \<Rightarrow> Inl e
      | Inr st' \<Rightarrow> Inr (log_event [Ev_join] st'))"

text \<open>
  The loop of lines 170-183 on the events the pipe holds: \<open>read\<close> takes the oldest one and
  its string is released; on the empty pipe \<open>read\<close> fails with \<open>EWOULDBLOCK\<close> and the loop
  ends.
\<close>

fun drain :: "pipe_event list \<Rightarrow> global_state \<Rightarrow> error + global_state" where
  "drain [] st = Inr (st\<lparr>pipe := []\<rparr>)"
| "drain (ev # evs) st =
     (case free (url ev) (log_event [Ev_read ev] (st\<lparr>pipe := evs\<rparr>)) of
        Inl e \<Rightarrow> Inl e
      | Inr st' \<Rightarrow> drain evs st')"

text \<open>
  \<open>cleanup_state\<close> (lines 162-197). The buffers of the responses are part of the slots
  here, so releasing them leaves the slots without one.
\<close>

definition cleanup_state :: "engine_obs option \<Rightarrow> global_state \<Rightarrow> error + global_state" where
  "cleanup_state inflight st =
     (let st1 = log_event [Ev_done] (st\<lparr>done_flag := True\<rparr>);
          st2 = curl_multi_wakeup st1
      in case pthread_join inflight st2 of
           Inl e \<Rightarrow> Inl e
         | Inr st3 \<Rightarrow>
             (case drain (pipe st3) st3 of
                Inl e \<Rightarrow> Inl e
              | Inr st4 \<Rightarrow>
                  Inr ((log_event [Ev_close] (st4\<lparr>fds_open := False\<rparr>))
                         \<lparr>responses := map (\<lambda>r. r\<lparr>response := None\<rparr>) (responses st4)\<rparr>)))"

section \<open>Executions\<close>

text \<open>
  The two threads and the world take turns: a pass of the worker, a pass of the main
  loop, a key typed, a resize signal.
\<close>

datatype action = Net engine_obs | Ui winsize | Typed char | Sigwinch

fun sys_step :: "action \<Rightarrow> global_state \<times> string \<Rightarrow> error + (control \<times> global_state \<times> string)" where
  "sys_step (Net ob) (st, buf) =
     (case network_iter ob st of Inl e \<Rightarrow> Inl e | Inr st' \<Rightarrow> Inr (Continue, st', buf))"
| "sys_step (Ui ws) (st, buf) = main_iter ws st buf"
| "sys_step (Typed c) (st, buf) = Inr (Continue, st\<lparr>stdin := stdin st @ [c]\<rparr>, buf)"
| "sys_step Sigwinch (st, buf) = Inr (Continue, sigwinch_handler st, buf)"

text \<open>An execution ends when the main loop breaks; the state then goes to \<open>cleanup_state\<close>.\<close>

fun sys_run :: "action list \<Rightarrow> global_state \<times> string \<Rightarrow> error + (control \<times> global_state \<times> string)" where
  "sys_run [] (st, buf) = Inr (Continue, st, buf)"
| "sys_run (a # as) (st, buf) =
     (case sys_step a (st, buf) of
        Inl e \<Rightarrow> Inl e
      | Inr (Break, st', buf') \<Rightarrow> Inr (Break, st', buf')
      | Inr (ctl, st', buf') \<Rightarrow> sys_run as (st', buf'))"

section \<open>Notions the properties are stated in\<close>

text \<open>
  The terminal output read as screen rows: every cursor positioning opens a row, whose
  text is the run of characters put right after it.
\<close>

fun line_text :: "term_op list \<Rightarrow> string" where
  "line_text (Putchar c # ops) = c # line_text ops"
| "line_text ops = []"

fun screen_rows :: "term_op list \<Rightarrow> (int \<times> string) list" where
  "screen_rows [] = []"
| "screen_rows (Term_set_cursor y x # ops) = (y, line_text ops) # screen_rows ops"
| "screen_rows (op # ops) = screen_rows ops"

text \<open>
  The stored logical lines of a log of \<open>n\<close> published slots, bottom-up: the newest slot
  first, and in a slot the last line first. A line is the pair of its slot and of the
  offset where it starts: offset 0, or an offset right after a newline. A slot without a
  payload has none.
\<close>

definition line_starts :: "curl_response \<Rightarrow> nat list" where
  "line_starts r =
     (case response r of
        None \<Rightarrow> []
      | Some buf \<Rightarrow> filter (\<lambda>start. start = 0 \<or> buf ! (start - 1) = LF) (rev [0..<size_resp r]))"

definition stored_lines :: "curl_response list \<Rightarrow> nat \<Rightarrow> (nat \<times> nat) list" where
  "stored_lines rs n = concat (map (\<lambda>j. map (Pair j) (line_starts (rs ! j))) (rev [0..<n]))"

text \<open>
  The length of a stored line, its newline not counted, and the end the renderer gives it
  (\<open>find_newline\<close>).
\<close>

definition line_length :: "curl_response list \<Rightarrow> nat \<times> nat \<Rightarrow> nat" where
  "line_length rs l =
     (case l of (j, start) \<Rightarrow>
        find_newline (the (response (rs ! j))) (size_resp (rs ! j)) start - start)"

text \<open>
  The \<open>n\<close> bytes of slot \<open>j\<close> from offset \<open>start\<close> on, every tab replaced by one space.
\<close>

definition untab :: "char \<Rightarrow> char" where
  "untab c = (if c = TAB then SPC else c)"

definition untabbed :: "curl_response list \<Rightarrow> nat \<times> nat \<Rightarrow> nat \<Rightarrow> string" where
  "untabbed rs l n =
     (case l of (j, start) \<Rightarrow> map (\<lambda>p. untab (the (response (rs ! j)) ! p)) [start..<start + n])"

text \<open>The test of line 328: a slot without a payload is a failed request.\<close>

definition failed :: "curl_response \<Rightarrow> bool" where
  "failed r = (response r = None)"

text \<open>Rows handed out upwards from row \<open>y\<close>, one per line.\<close>

fun place :: "int \<Rightarrow> 'a list \<Rightarrow> (int \<times> 'a) list" where
  "place y [] = []"
| "place y (l # ls) = (y, l) # place (y - 1) ls"

text \<open>
  The lines a viewport of \<open>nrows\<close> rows shows at scroll offset \<open>k\<close>: the stored lines after
  the \<open>k\<close> bottom-most ones, as far as the rows above the input row reach.
\<close>

definition shown_lines :: "curl_response list \<Rightarrow> nat \<Rightarrow> int \<Rightarrow> int \<Rightarrow> (nat \<times> nat) list" where
  "shown_lines rs n nrows k = take (nat (nrows - 1)) (drop (nat k) (stored_lines rs n))"

text \<open>
  What the renderer does with one line that passes the test of line 335, and the same for
  a stored line; what it prints for a line it shows at row \<open>y\<close>; the text of such a row.
\<close>

definition show_line :: "string \<Rightarrow> nat \<Rightarrow> nat \<Rightarrow> nat \<Rightarrow> int \<times> int \<times> term_op list \<Rightarrow> int \<times> int \<times> term_op list" where
  "show_line buf sz ncols start s =
     (case s of (y, n_skip, out) \<Rightarrow>
        if y \<le> 0 then (y, n_skip, out)
        else if n_skip > 0 then (y, n_skip - 1, out)
        else (y - 1, n_skip - 1,
              out @ Term_set_cursor y 1 # put_line buf (find_newline buf sz start) ncols 0 start))"

definition show_stored :: "curl_response list \<Rightarrow> nat \<Rightarrow> nat \<times> nat \<Rightarrow> int \<times> int \<times> term_op list \<Rightarrow> int \<times> int \<times> term_op list" where
  "show_stored rs ncols l s =
     (case l of (j, start) \<Rightarrow>
        show_line (the (response (rs ! j))) (size_resp (rs ! j)) ncols start s)"

definition slot_pass :: "nat \<Rightarrow> curl_response \<Rightarrow> int \<times> int \<times> term_op list \<Rightarrow> int \<times> int \<times> term_op list" where
  "slot_pass ncols r s =
     (case response r of
        None \<Rightarrow> s
      | Some buf \<Rightarrow> line_loop buf (size_resp r) ncols (size_resp r) s)"

definition block :: "curl_response list \<Rightarrow> nat \<Rightarrow> int \<times> nat \<times> nat \<Rightarrow> term_op list" where
  "block rs ncols p =
     (case p of (y, j, start) \<Rightarrow>
        Term_set_cursor y 1 #
        put_line (the (response (rs ! j)))
          (find_newline (the (response (rs ! j))) (size_resp (rs ! j)) start) ncols 0 start)"

definition row_text :: "curl_response list \<Rightarrow> nat \<Rightarrow> nat \<times> nat \<Rightarrow> string" where
  "row_text rs ncols l = untabbed rs l (min ncols (line_length rs l + 1))"

text \<open>
  A pass of the worker sees a transfer complete: the test of line 222 is reached and
  holds.
\<close>

definition completes :: "engine_obs \<Rightarrow> global_state \<Rightarrow> bool" where
  "completes ob st =
     (perform_ok ob \<and> prev_running_handles st = 1 \<and> running_handles ob = 0)"

text \<open>A pass of the worker starts a transfer: the test of line 239 is reached and holds.\<close>

definition starts :: "engine_obs \<Rightarrow> global_state \<Rightarrow> bool" where
  "starts ob st = (perform_ok ob \<and> poll_ok ob \<and> running_handles ob = 0 \<and> pipe st \<noteq> [])"

text \<open>Every allocation of the pass succeeds.\<close>

definition sinks_ok :: "engine_obs \<Rightarrow> bool" where
  "sinks_ok ob = (\<forall>c \<in> set (sink_calls ob). fst c \<noteq> None)"

text \<open>The sink calls of a pass, as events: they go to the slot of the added handle.\<close>

definition sink_events :: "engine_obs \<Rightarrow> global_state \<Rightarrow> event list" where
  "sink_events ob st =
     (case easy_writedata (easy st) of
        None \<Rightarrow> []
      | Some t \<Rightarrow> if easy_added (easy st) then map (\<lambda>c. Ev_sink t) (sink_calls ob) else [])"

text \<open>
  The live strings are those of the queued events, one each, and lie below the next
  address.
\<close>

definition urls_owned :: "global_state \<Rightarrow> bool" where
  "urls_owned st =
     (distinct (map url (pipe st)) \<and> dom (heap st) = url ` set (pipe st)
      \<and> (\<forall>a \<in> dom (heap st). a < next_addr st))"

text \<open>
  The array has its 1024 slots, each as \<open>write_cb\<close> leaves slots, the cursor is below
  1024, and the slot of the handle is at or below the cursor.
\<close>

definition slots_ok :: "global_state \<Rightarrow> bool" where
  "slots_ok st =
     (length (responses st) = 1024 \<and> (\<forall>r \<in> set (responses st). slot_ok r)
      \<and> latest_response st < 1024
      \<and> (\<forall>t. easy_writedata (easy st) = Some t \<longrightarrow> t \<le> latest_response st))"

text \<open>The worker is in its loop and shutdown has not begun.\<close>

definition running :: "global_state \<Rightarrow> bool" where
  "running st = (network_running st \<and> \<not> done_flag st)"

section \<open>A small log\<close>

text \<open>
  A slot holding a text as \<open>write_cb\<close> leaves it, and a log of three published slots, the
  second one failed: the first holds two lines, the second of them with a tab and longer
  than four columns; the third holds a line, an empty line and a last line without a
  newline. \<open>example_buf\<close> is the input buffer after \<open>hello\<close> was typed.
\<close>

definition text_slot :: "string \<Rightarrow> curl_response" where
  "text_slot s = \<lparr>response = Some (s @ [NUL]), size_resp = length s\<rparr>"

definition example_log :: global_state where
  "example_log =
     init_state\<lparr>responses :=
                  text_slot (''ab'' @ [LF] @ ''c'' @ [TAB] @ ''defgh'' @ [LF])
                  # zero_response
                  # text_slot (''xyz'' @ [LF, LF] @ ''q'')
                  # replicate 1021 zero_response,
                latest_response := 3\<rparr>"

definition example_buf :: string where
  "example_buf = ''hello'' @ replicate 123 NUL"

definition example_ws :: winsize where
  "example_ws = \<lparr>ws_row = 4, ws_col = 4\<rparr>"

section \<open>The write callback accumulates the payload\<close>

lemma realloc_take:
  "slot_ok mem \<Longrightarrow> realloc (Some junk) (response mem) (size_resp mem + k + 1) = Some buf
   \<Longrightarrow> length buf = size_resp mem + k + 1 \<and> take (size_resp mem) buf = payload mem"
  by (auto simp: realloc_def slot_ok_def payload_def take_map split: option.splits
           intro!: nth_equalityI)

lemma memcpy_terminate:
  "length dst = off + n + 1 \<Longrightarrow> length src = n \<Longrightarrow>
   (memcpy dst off src n)[off + n := NUL] = take off dst @ src @ [NUL]"
  by (auto simp: memcpy_def list_update_append intro!: nth_equalityI simp: nth_append)

lemma write_cb_result:
  assumes "slot_ok mem" and "length data = sz * nmemb"
  shows "write_cb (Some junk) data sz nmemb mem =
         Inr (sz * nmemb, \<lparr>response = Some (payload mem @ data @ [NUL]),
                           size_resp = size_resp mem + sz * nmemb\<rparr>)"
proof -
  obtain buf where b: "realloc (Some junk) (response mem) (size_resp mem + sz * nmemb + 1) = Some buf"
    by (simp add: realloc_def)
  from realloc_take [OF assms(1) b]
  have l: "length buf = size_resp mem + sz * nmemb + 1" and t: "take (size_resp mem) buf = payload mem"
    by simp_all
  show ?thesis
    using memcpy_terminate [OF l, of data] assms(2) t b by (simp add: write_cb_def Let_def)
qed

lemma slot_ok_appended:
  "slot_ok \<lparr>response = Some (p @ d @ [NUL]), size_resp = length p + length d\<rparr>"
  by (simp add: slot_ok_def nth_append)

lemma payload_length: "slot_ok mem \<Longrightarrow> length (payload mem) = size_resp mem"
  by (auto simp: slot_ok_def payload_def split: option.splits)

lemma write_cb_slot:
  assumes "slot_ok mem" and "length data = sz * nmemb"
  shows "\<exists>mem'. write_cb (Some junk) data sz nmemb mem = Inr (sz * nmemb, mem')
           \<and> response mem' = Some (payload mem @ data @ [NUL])
           \<and> size_resp mem' = size_resp mem + sz * nmemb
           \<and> payload mem' = payload mem @ data
           \<and> slot_ok mem'"
  using write_cb_result [OF assms, of junk] slot_ok_appended [of "payload mem" data]
    payload_length [OF assms(1)] assms(2)
  by (simp add: payload_def)

lemma deliver_slot:
  "slot_ok mem \<Longrightarrow> \<forall>c \<in> set calls. fst c \<noteq> None \<Longrightarrow>
   \<exists>mem'. deliver calls mem = Inr mem'
     \<and> payload mem' = payload mem @ concat (map snd calls)
     \<and> size_resp mem' = size_resp mem + length (concat (map snd calls))
     \<and> (calls \<noteq> [] \<longrightarrow> response mem' = Some (payload mem @ concat (map snd calls) @ [NUL]))
     \<and> slot_ok mem'"
proof (induction calls arbitrary: mem)
  case Nil
  then show ?case by simp
next
  case (Cons c calls)
  obtain junk d where c: "c = (Some junk, d)"
    using Cons.prems(2) by (cases c) auto
  obtain m where w: "write_cb (Some junk) d 1 (length d) mem = Inr (1 * length d, m)"
    and r: "response m = Some (payload mem @ d @ [NUL])"
    and s: "size_resp m = size_resp mem + 1 * length d"
    and p: "payload m = payload mem @ d" and ok: "slot_ok m"
    using write_cb_slot [OF Cons.prems(1), of d 1 "length d" junk] by auto
  obtain mem' where d: "deliver calls m = Inr mem'"
    and p': "payload mem' = payload m @ concat (map snd calls)"
    and s': "size_resp mem' = size_resp m + length (concat (map snd calls))"
    and r': "calls \<noteq> [] \<longrightarrow> response mem' = Some (payload m @ concat (map snd calls) @ [NUL])"
    and ok': "slot_ok mem'"
    using Cons.IH [OF ok] Cons.prems(2) by auto
  have "deliver (c # calls) mem = Inr mem'"
    using w d by (simp add: c)
  moreover have "response mem' = Some (payload mem @ concat (map snd (c # calls)) @ [NUL])"
  proof (cases "calls = []")
    case True
    then show ?thesis using d r by (simp add: c)
  next
    case False
    then show ?thesis using r' p by (simp add: c)
  qed
  ultimately show ?case
    using p' s' ok' p s by (simp add: c)
qed

text \<open>
  Claim C10. Every call of the sink that delivers a chunk of \<open>sz * nmemb\<close> bytes to a slot
  (one that is still zeroed or that earlier calls have written) returns that number and
  leaves the slot with the earlier bytes unchanged, the chunk after them, a zero byte at
  index \<open>size\<close>, and \<open>size\<close> larger by the length of the chunk. So after any sequence of
  calls the payload is the chunks in order, zero-terminated. The sink has no other way
  out than the failed \<open>assert(ptr)\<close>, when the allocator returns NULL.
\<close>

theorem write_cb_accumulates:
  assumes "slot_ok mem"
  shows "(length data = sz * nmemb \<longrightarrow>
            (\<exists>mem'. write_cb (Some junk) data sz nmemb mem = Inr (sz * nmemb, mem')
               \<and> response mem' = Some (payload mem @ data @ [NUL])
               \<and> size_resp mem' = size_resp mem + sz * nmemb
               \<and> payload mem' = payload mem @ data
               \<and> slot_ok mem'))
       \<and> ((\<forall>c \<in> set calls. fst c \<noteq> None) \<longrightarrow>
            (\<exists>mem'. deliver calls mem = Inr mem'
               \<and> payload mem' = payload mem @ concat (map snd calls)
               \<and> size_resp mem' = size_resp mem + length (concat (map snd calls))
               \<and> (calls \<noteq> [] \<longrightarrow>
                    response mem' = Some (payload mem @ concat (map snd calls) @ [NUL]))
               \<and> slot_ok mem'))
       \<and> write_cb None data sz nmemb mem = Inl (Assertion_failed ''ptr'')"
proof (intro conjI impI)
  assume "length data = sz * nmemb"
  then show "\<exists>mem'. write_cb (Some junk) data sz nmemb mem = Inr (sz * nmemb, mem')
               \<and> response mem' = Some (payload mem @ data @ [NUL])
               \<and> size_resp mem' = size_resp mem + sz * nmemb
               \<and> payload mem' = payload mem @ data
               \<and> slot_ok mem'"
    by (rule write_cb_slot [OF assms])
next
  assume "\<forall>c \<in> set calls. fst c \<noteq> None"
  then show "\<exists>mem'. deliver calls mem = Inr mem'
               \<and> payload mem' = payload mem @ concat (map snd calls)
               \<and> size_resp mem' = size_resp mem + length (concat (map snd calls))
               \<and> (calls \<noteq> [] \<longrightarrow>
                    response mem' = Some (payload mem @ concat (map snd calls) @ [NUL]))
               \<and> slot_ok mem'"
    by (rule deliver_slot [OF assms])
next
  show "write_cb None data sz nmemb mem = Inl (Assertion_failed ''ptr'')"
    by (simp add: write_cb_def realloc_def)
qed

theorem write_cb_accumulates_witness:
  "slot_ok zero_response
   \<and> write_cb (Some (\<lambda>i. CHR ''x'')) ''ab'' 1 2 zero_response =
       Inr (2, \<lparr>response = Some [CHR ''a'', CHR ''b'', NUL], size_resp = 2\<rparr>)
   \<and> deliver [(Some (\<lambda>i. CHR ''x''), ''ab''), (Some (\<lambda>i. CHR ''y''), ''c'')] zero_response =
       Inr \<lparr>response = Some [CHR ''a'', CHR ''b'', CHR ''c'', NUL], size_resp = 3\<rparr>
   \<and> payload \<lparr>response = Some [CHR ''a'', CHR ''b'', CHR ''c'', NUL], size_resp = 3\<rparr> = ''abc''"
proof -
  have ok: "slot_ok zero_response"
    by (simp add: slot_ok_def zero_response_def)
  show ?thesis
    using ok
      write_cb_accumulates [OF ok, of "''ab''" 1 2 "\<lambda>i. CHR ''x''"
        "[(Some (\<lambda>i. CHR ''x''), ''ab''), (Some (\<lambda>i. CHR ''y''), ''c'')]"]
    by (auto simp: payload_def zero_response_def)
qed

section \<open>The renderer as a pass over the stored lines\<close>

lemma show_line_tuple:
  "show_line buf sz ncols start (y, n_skip, out) =
     (if y \<le> 0 then (y, n_skip, out)
      else if n_skip > 0 then (y, n_skip - 1, out)
      else (y - 1, n_skip - 1,
            out @ Term_set_cursor y 1 # put_line buf (find_newline buf sz start) ncols 0 start))"
  by (simp add: show_line_def)

lemma fold_show_line_stuck:
  "y \<le> 0 \<Longrightarrow> fold (show_line buf sz ncols) ls (y, k, out) = (y, k, out)"
  by (induction ls) (simp_all add: show_line_tuple)

lemma line_loop_fold:
  "line_loop buf sz ncols n s =
   fold (show_line buf sz ncols) (filter (\<lambda>start. start = 0 \<or> buf ! (start - 1) = LF) (rev [0..<n])) s"
proof (induction n arbitrary: s)
  case 0
  then show ?case by simp
next
  case (Suc n)
  obtain y k out where s: "s = (y, k, out)" by (cases s)
  show ?case
    by (simp add: s Suc.IH show_line_tuple fold_show_line_stuck)
qed

lemma fold_show_stored_slot:
  "fold (show_stored rs ncols) (map (Pair j) ls) s =
   fold (show_line (the (response (rs ! j))) (size_resp (rs ! j)) ncols) ls s"
  by (induction ls arbitrary: s) (simp_all add: show_stored_def)

lemma resp_loop_fold:
  "resp_loop rs ncols n s = fold (show_stored rs ncols) (stored_lines rs n) s"
proof (induction n arbitrary: s)
  case 0
  then show ?case by (simp add: stored_lines_def)
next
  case (Suc n)
  have st: "stored_lines rs (Suc n) = map (Pair n) (line_starts (rs ! n)) @ stored_lines rs n"
    by (simp add: stored_lines_def)
  show ?case
  proof (cases "response (rs ! n)")
    case None
    then show ?thesis by (simp add: st Suc.IH line_starts_def)
  next
    case (Some buf)
    then show ?thesis
      by (simp add: st Suc.IH fold_show_stored_slot line_loop_fold line_starts_def)
  qed
qed

lemma put_line_eq:
  "begin \<le> newline + 1 \<Longrightarrow>
   put_line buf newline ncols i begin =
   map (\<lambda>p. Putchar (untab (buf ! p))) [begin..<begin + min (ncols - i) (newline + 1 - begin)]"
proof (induction buf newline ncols i "begin" rule: put_line.induct)
  case (1 buf newline ncols i b)
  show ?case
  proof (cases "b \<noteq> newline + 1 \<and> i < ncols")
    case True
    with "1.prems" have le: "b + 1 \<le> newline + 1" by simp
    define n' where "n' = min (ncols - (i + 1)) (newline + 1 - (b + 1))"
    have m: "min (ncols - i) (newline + 1 - b) = Suc n'"
      unfolding n'_def using True "1.prems" by arith
    have "put_line buf newline ncols i b =
          Putchar (untab (buf ! b)) # put_line buf newline ncols (i + 1) (b + 1)"
      using True by (subst put_line.simps) (simp add: untab_def)
    also have "\<dots> = Putchar (untab (buf ! b)) #
          map (\<lambda>p. Putchar (untab (buf ! p))) [b + 1..<b + 1 + n']"
      using "1.IH" [OF True le] by (simp add: n'_def)
    also have "\<dots> = map (\<lambda>p. Putchar (untab (buf ! p))) [b..<b + Suc n']"
      by (simp del: upt_Suc add: upt_conv_Cons)
    finally show ?thesis by (simp only: m)
  next
    case False
    then have "min (ncols - i) (newline + 1 - b) = 0"
      using "1.prems" by arith
    moreover have "put_line buf newline ncols i b = []"
      using False by (subst put_line.simps) simp
    ultimately show ?thesis by simp
  qed
qed

lemma show_stored_tuple:
  "show_stored rs ncols l (y, k, out) =
     (if y \<le> 0 then (y, k, out)
      else if k > 0 then (y, k - 1, out)
      else (y - 1, k - 1, out @ block rs ncols (y, l)))"
  by (cases l) (simp add: show_stored_def show_line_tuple block_def)

lemma fold_show_stored_out:
  "snd (snd (fold (show_stored rs ncols) ls (y, k, out))) =
   out @ concat (map (block rs ncols) (place y (take (nat y) (drop (nat k) ls))))"
proof (induction ls arbitrary: y k out)
  case Nil
  then show ?case by simp
next
  case (Cons l ls)
  consider "y \<le> 0" | "0 < y" "0 < k" | "0 < y" "k \<le> 0" by linarith
  then show ?case
  proof cases
    case 1
    then show ?thesis by (simp add: show_stored_tuple Cons.IH)
  next
    case 2
    then have "drop (nat k) (l # ls) = drop (nat (k - 1)) ls"
      by (simp add: drop_Cons' nat_diff_distrib)
    with 2 show ?thesis by (simp add: show_stored_tuple Cons.IH)
  next
    case 3
    then have "take (nat y) (drop (nat k) (l # ls)) = l # take (nat (y - 1)) (drop (nat (k - 1)) ls)"
      by (simp add: take_Cons' nat_diff_distrib)
    with 3 show ?thesis by (simp add: show_stored_tuple Cons.IH)
  qed
qed

lemma line_text_chars: "line_text (map Putchar t @ ops) = t @ line_text ops"
  by (induction t) simp_all

lemma screen_rows_chars: "screen_rows (map Putchar t @ ops) = screen_rows ops"
  by (induction t) simp_all

lemma line_text_cursor: "line_text (Term_set_cursor y x # ops) = []"
  by simp

lemma strchr_bound: "strchr s c = Some k \<Longrightarrow> k < length s"
  by (induction s arbitrary: k) (auto split: if_splits)

lemma find_newline_ge: "start < sz \<Longrightarrow> start \<le> find_newline buf sz start"
  by (simp add: find_newline_def split: option.splits)

lemma line_starts_mem:
  "start \<in> set (line_starts r) \<Longrightarrow> response r \<noteq> None \<and> start < size_resp r"
  by (cases "response r") (auto simp: line_starts_def)

lemma stored_lines_mem:
  "l \<in> set (stored_lines rs n) \<Longrightarrow>
   fst l < n \<and> response (rs ! fst l) \<noteq> None \<and> snd l < size_resp (rs ! fst l)"
  by (auto simp: stored_lines_def dest: line_starts_mem)

lemma block_row_text:
  assumes "snd l < size_resp (rs ! fst l)"
  shows "block rs ncols (y, l) = Term_set_cursor y 1 # map Putchar (row_text rs ncols l)"
proof -
  obtain j start where l: "l = (j, start)" by (cases l)
  let ?buf = "the (response (rs ! j))"
  let ?nl = "find_newline ?buf (size_resp (rs ! j)) start"
  have ge: "start \<le> ?nl" using assms by (simp add: l find_newline_ge)
  then have "put_line ?buf ?nl ncols 0 start =
             map (\<lambda>p. Putchar (untab (?buf ! p))) [start..<start + min ncols (?nl + 1 - start)]"
    using put_line_eq [of start ?nl ?buf ncols 0] by simp
  moreover have "?nl + 1 - start = ?nl - start + 1" using ge by simp
  ultimately show ?thesis
    by (simp add: block_def l row_text_def untabbed_def line_length_def comp_def)
qed

lemma line_text_blocks:
  "line_text rest = [] \<Longrightarrow> line_text (concat (map (block rs ncols) ps) @ rest) = []"
  by (cases ps) (auto simp: block_def split: prod.splits)

lemma screen_rows_blocks:
  assumes "line_text rest = []"
    and "\<forall>p \<in> set ps. snd (snd p) < size_resp (rs ! fst (snd p))"
  shows "screen_rows (concat (map (block rs ncols) ps) @ rest) =
         map (\<lambda>p. (fst p, row_text rs ncols (snd p))) ps @ screen_rows rest"
  using assms(2)
proof (induction ps)
  case Nil
  then show ?case by simp
next
  case (Cons p ps)
  obtain y l where p: "p = (y, l)" by (cases p)
  have b: "block rs ncols (y, l) = Term_set_cursor y 1 # map Putchar (row_text rs ncols l)"
    using Cons.prems by (intro block_row_text) (simp add: p)
  have "screen_rows (concat (map (block rs ncols) (p # ps)) @ rest) =
        (y, row_text rs ncols l @ line_text (concat (map (block rs ncols) ps) @ rest))
          # screen_rows (concat (map (block rs ncols) ps) @ rest)"
    by (simp add: p b line_text_chars screen_rows_chars)
  then show ?case
    using Cons.IH Cons.prems line_text_blocks [OF assms(1)] by (simp add: p)
qed

lemma place_snd: "map snd (place y ls) = ls"
  by (induction ls arbitrary: y) simp_all

lemma length_place: "length (place y ls) = length ls"
  by (induction ls arbitrary: y) simp_all

lemma shown_lines_mem:
  "l \<in> set (shown_lines rs n nrows k) \<Longrightarrow> l \<in> set (stored_lines rs n)"
  unfolding shown_lines_def by (meson in_set_dropD in_set_takeD)

lemma screen_rows_redraw:
  "screen_rows (redraw st ws buf) =
   map (\<lambda>p. (fst p, row_text (responses st) (unat (ws_col ws)) (snd p)))
       (place (uint (ws_row ws) - 1)
          (shown_lines (responses st) (latest_response st) (uint (ws_row ws)) (scroll st)))
   @ [(uint (ws_row ws), take (unat (ws_col ws)) (c_str buf))]"
proof -
  let ?rs = "responses st" and ?nc = "unat (ws_col ws)" and ?R = "uint (ws_row ws)"
  let ?ps = "place (?R - 1) (shown_lines ?rs (latest_response st) ?R (scroll st))"
  let ?rest = "Term_set_cursor ?R 1 # map Putchar (take ?nc (c_str buf)) @ [Fflush]"
  obtain y k out where r: "resp_loop ?rs ?nc (latest_response st) (?R - 1, scroll st, [Term_clear]) = (y, k, out)"
    by (cases "resp_loop ?rs ?nc (latest_response st) (?R - 1, scroll st, [Term_clear])")
  have out: "out = [Term_clear] @ concat (map (block ?rs ?nc) ?ps)"
    using fold_show_stored_out [of ?rs ?nc "stored_lines ?rs (latest_response st)" "?R - 1" "scroll st" "[Term_clear]"]
    by (simp add: resp_loop_fold [symmetric] r shown_lines_def)
  have mem: "\<forall>p \<in> set ?ps. snd (snd p) < size_resp (?rs ! fst (snd p))"
  proof
    fix p assume "p \<in> set ?ps"
    then have "snd p \<in> set (map snd ?ps)" by simp
    then have "snd p \<in> set (stored_lines ?rs (latest_response st))"
      by (simp add: place_snd shown_lines_mem)
    then show "snd (snd p) < size_resp (?rs ! fst (snd p))"
      using stored_lines_mem by blast
  qed
  have "redraw st ws buf = Term_clear # (concat (map (block ?rs ?nc) ?ps) @ ?rest)"
    by (simp add: redraw_def get_win_size_def r out)
  then have "screen_rows (redraw st ws buf) = screen_rows (concat (map (block ?rs ?nc) ?ps) @ ?rest)"
    by simp
  also have "\<dots> = map (\<lambda>p. (fst p, row_text ?rs ?nc (snd p))) ?ps @ screen_rows ?rest"
    by (rule screen_rows_blocks [OF _ mem]) simp
  also have "screen_rows ?rest = [(?R, take ?nc (c_str buf))]"
    by (simp add: line_text_chars screen_rows_chars)
  finally show ?thesis .
qed


lemma place_nth:
  "i < length ls \<Longrightarrow> place y ls ! i = (y - int i, ls ! i)"
proof (induction ls arbitrary: y i)
  case Nil
  then show ?case by simp
next
  case (Cons l ls)
  then show ?case by (cases i) simp_all
qed


lemma length_row_text:
  "length (row_text rs ncols l) = min ncols (line_length rs l + 1)"
  by (cases l) (simp add: row_text_def untabbed_def)

lemma log_rows_redraw:
  "butlast (screen_rows (redraw st ws buf)) =
   map (\<lambda>p. (fst p, row_text (responses st) (unat (ws_col ws)) (snd p)))
       (place (uint (ws_row ws) - 1)
          (shown_lines (responses st) (latest_response st) (uint (ws_row ws)) (scroll st)))"
  by (simp add: screen_rows_redraw butlast_append)

lemma log_row_nth:
  assumes "i < length (shown_lines (responses st) (latest_response st) (uint (ws_row ws)) (scroll st))"
  shows "screen_rows (redraw st ws buf) ! i =
         (uint (ws_row ws) - 1 - int i,
          row_text (responses st) (unat (ws_col ws))
            (shown_lines (responses st) (latest_response st) (uint (ws_row ws)) (scroll st) ! i))"
  using assms by (simp add: screen_rows_redraw nth_append length_place place_nth)

lemma row_text_nth:
  "q < length (row_text rs ncols (j, start)) \<Longrightarrow>
   row_text rs ncols (j, start) ! q = untab (the (response (rs ! j)) ! (start + q))"
  by (simp add: row_text_def untabbed_def)

lemma untab_not_tab: "untab c \<noteq> TAB"
  by (simp add: untab_def)

lemma row_text_no_tab: "TAB \<notin> set (row_text rs ncols l)"
  by (cases l) (auto simp: row_text_def untabbed_def untab_def split: if_splits)

lemma resp_loop_slots:
  "n \<le> length rs \<Longrightarrow> resp_loop rs ncols n s = fold (slot_pass ncols) (rev (take n rs)) s"
proof (induction n arbitrary: s)
  case 0
  then show ?case by simp
next
  case (Suc n)
  then have "take (Suc n) rs = take n rs @ [rs ! n]"
    by (simp add: take_Suc_conv_app_nth)
  with Suc show ?case
    by (simp add: slot_pass_def split: option.splits)
qed

lemma fold_slot_pass_filter:
  "fold (slot_pass ncols) (filter (\<lambda>r. \<not> failed r) rs) s = fold (slot_pass ncols) rs s"
  by (induction rs arbitrary: s) (auto simp: slot_pass_def failed_def)

lemma resp_loop_filter:
  assumes "n \<le> length rs"
  shows "resp_loop (filter (\<lambda>r. \<not> failed r) (take n rs)) ncols
           (length (filter (\<lambda>r. \<not> failed r) (take n rs))) s =
         resp_loop rs ncols n s"
  by (simp add: resp_loop_slots assms rev_filter fold_slot_pass_filter)

section \<open>What the renderer shows\<close>



text \<open>
  Claim C5. For every log and every \<open>k \<ge> 0\<close> below the number of stored lines: at scroll
  offset \<open>k\<close> the rows above the input row show, from row \<open>R - 1\<close> upwards, the stored
  lines (bottom-up over the slots that did not fail) after the \<open>k\<close> bottom-most ones, and
  at scroll offset 0 the stored lines from the bottom-most on: offset \<open>k\<close> skips exactly
  \<open>k\<close> more lines before it renders.
\<close>

theorem scroll_offset_skips:
  assumes "0 \<le> k" and "nat k < length (stored_lines (responses st) (latest_response st))"
  shows "butlast (screen_rows (redraw (st\<lparr>scroll := k\<rparr>) ws buf)) =
           map (\<lambda>p. (fst p, row_text (responses st) (unat (ws_col ws)) (snd p)))
             (place (uint (ws_row ws) - 1)
                (take (nat (uint (ws_row ws) - 1))
                   (drop (nat k) (stored_lines (responses st) (latest_response st)))))
       \<and> butlast (screen_rows (redraw (st\<lparr>scroll := 0\<rparr>) ws buf)) =
           map (\<lambda>p. (fst p, row_text (responses st) (unat (ws_col ws)) (snd p)))
             (place (uint (ws_row ws) - 1)
                (take (nat (uint (ws_row ws) - 1))
                   (stored_lines (responses st) (latest_response st))))"
  using log_rows_redraw [of "st\<lparr>scroll := k\<rparr>" ws buf] log_rows_redraw [of "st\<lparr>scroll := 0\<rparr>" ws buf]
  by (simp add: shown_lines_def)

theorem scroll_offset_skips_witness:
  "(0::int) \<le> 2
   \<and> nat 2 < length (stored_lines (responses example_log) (latest_response example_log))
   \<and> stored_lines (responses example_log) (latest_response example_log) =
       [(2, 5), (2, 4), (2, 0), (0, 3), (0, 0)]
   \<and> butlast (screen_rows (redraw (example_log\<lparr>scroll := 2\<rparr>) example_ws example_buf)) =
       [(3, ''xyz'' @ [LF]), (2, ''c de''), (1, ''ab'' @ [LF])]
   \<and> butlast (screen_rows (redraw (example_log\<lparr>scroll := 0\<rparr>) example_ws example_buf)) =
       [(3, ''q'' @ [NUL]), (2, [LF]), (1, ''xyz'' @ [LF])]"
proof -
  have lines: "stored_lines (responses example_log) (latest_response example_log) =
       [(2, 5), (2, 4), (2, 0), (0, 3), (0, 0)]"
    by code_simp
  have k: "nat 2 < length (stored_lines (responses example_log) (latest_response example_log))"
    by (simp add: lines)
  have t2: "map (\<lambda>p. (fst p, row_text (responses example_log) (unat (ws_col example_ws)) (snd p)))
             (place (uint (ws_row example_ws) - 1)
                (take (nat (uint (ws_row example_ws) - 1))
                   (drop (nat 2) (stored_lines (responses example_log) (latest_response example_log)))))
            = [(3, ''xyz'' @ [LF]), (2, ''c de''), (1, ''ab'' @ [LF])]"
    by code_simp
  have t0: "map (\<lambda>p. (fst p, row_text (responses example_log) (unat (ws_col example_ws)) (snd p)))
             (place (uint (ws_row example_ws) - 1)
                (take (nat (uint (ws_row example_ws) - 1))
                   (stored_lines (responses example_log) (latest_response example_log))))
            = [(3, ''q'' @ [NUL]), (2, [LF]), (1, ''xyz'' @ [LF])]"
    by code_simp
  show ?thesis
    using scroll_offset_skips [of 2 example_log example_ws example_buf, OF _ k] lines k t2 t0
    by simp
qed

text \<open>
  Claim C6. For every shown line, of slot \<open>j\<close> from offset \<open>start\<close> on: its row has one
  character per payload byte from \<open>start\<close> on, as far as the line and the columns reach;
  where the byte is a tab the character is one space, elsewhere it is the byte. No row
  of the log has a tab.
\<close>

theorem tab_rendered_as_space:
  assumes "i < length (shown_lines (responses st) (latest_response st) (uint (ws_row ws)) (scroll st))"
    and "shown_lines (responses st) (latest_response st) (uint (ws_row ws)) (scroll st) ! i = (j, start)"
    and "response (responses st ! j) = Some payl"
  shows "length (snd (screen_rows (redraw st ws buf) ! i)) =
           min (unat (ws_col ws)) (line_length (responses st) (j, start) + 1)
       \<and> (\<forall>q < length (snd (screen_rows (redraw st ws buf) ! i)).
             snd (screen_rows (redraw st ws buf) ! i) ! q =
               (if payl ! (start + q) = TAB then SPC else payl ! (start + q)))
       \<and> TAB \<notin> set (snd (screen_rows (redraw st ws buf) ! i))"
  using assms
  by (simp add: log_row_nth length_row_text row_text_nth row_text_no_tab untab_def)

theorem tab_rendered_as_space_witness:
  "shown_lines (responses (example_log\<lparr>scroll := 2\<rparr>)) (latest_response (example_log\<lparr>scroll := 2\<rparr>))
      (uint (ws_row example_ws)) (scroll (example_log\<lparr>scroll := 2\<rparr>)) = [(2, 0), (0, 3), (0, 0)]
   \<and> response (responses (example_log\<lparr>scroll := 2\<rparr>) ! 0) =
       Some (''ab'' @ [LF] @ ''c'' @ [TAB] @ ''defgh'' @ [LF, NUL])
   \<and> (''ab'' @ [LF] @ ''c'' @ [TAB] @ ''defgh'' @ [LF, NUL]) ! (3 + 1) = TAB
   \<and> snd (screen_rows (redraw (example_log\<lparr>scroll := 2\<rparr>) example_ws example_buf) ! 1) ! 1 = SPC
   \<and> TAB \<notin> set (snd (screen_rows (redraw (example_log\<lparr>scroll := 2\<rparr>) example_ws example_buf) ! 1))"
proof -
  let ?st = "example_log\<lparr>scroll := 2\<rparr>"
  have sh: "shown_lines (responses ?st) (latest_response ?st) (uint (ws_row example_ws)) (scroll ?st)
            = [(2, 0), (0, 3), (0, 0)]"
    by code_simp
  have p: "response (responses ?st ! 0) = Some (''ab'' @ [LF] @ ''c'' @ [TAB] @ ''defgh'' @ [LF, NUL])"
    by code_simp
  have i: "1 < length (shown_lines (responses ?st) (latest_response ?st) (uint (ws_row example_ws)) (scroll ?st))"
    using sh by simp
  have l: "shown_lines (responses ?st) (latest_response ?st) (uint (ws_row example_ws)) (scroll ?st) ! 1 = (0, 3)"
    using sh by simp
  have len: "length (snd (screen_rows (redraw ?st example_ws example_buf) ! 1)) = 4"
    by code_simp
  have "snd (screen_rows (redraw ?st example_ws example_buf) ! 1) ! 1 = SPC"
    using tab_rendered_as_space [OF i l p, of example_buf] len by simp
  moreover have "TAB \<notin> set (snd (screen_rows (redraw ?st example_ws example_buf) ! 1))"
    using tab_rendered_as_space [OF i l p, of example_buf] by blast
  ultimately show ?thesis
    using sh p by simp
qed

text \<open>
  Claim C7. A slot whose payload is none adds nothing to a redraw: the pass over it
  leaves the row counter, the skip countdown and the output as they were, so that the
  renderer's output for a log is its output for the log without the failed slots.
\<close>

theorem failed_slot_not_rendered:
  "(failed (rs ! j) \<longrightarrow> resp_loop rs ncols (Suc j) s = resp_loop rs ncols j s)
   \<and> (latest_response st \<le> length (responses st) \<longrightarrow>
        redraw (st\<lparr>responses := filter (\<lambda>r. \<not> failed r)
                                  (take (latest_response st) (responses st)),
                    latest_response := length (filter (\<lambda>r. \<not> failed r)
                                  (take (latest_response st) (responses st)))\<rparr>) ws buf
        = redraw st ws buf)"
  by (simp add: redraw_def resp_loop_filter failed_def [of "rs ! j"])

theorem failed_slot_not_rendered_witness:
  "failed (responses example_log ! 1)
   \<and> resp_loop (responses example_log) 4 (Suc 1) (3, 1, []) = resp_loop (responses example_log) 4 1 (3, 1, [])
   \<and> latest_response example_log \<le> length (responses example_log)
   \<and> filter (\<lambda>r. \<not> failed r) (take (latest_response example_log) (responses example_log)) =
       [text_slot (''ab'' @ [LF] @ ''c'' @ [TAB] @ ''defgh'' @ [LF]), text_slot (''xyz'' @ [LF, LF] @ ''q'')]
   \<and> redraw (example_log\<lparr>responses :=
                 [text_slot (''ab'' @ [LF] @ ''c'' @ [TAB] @ ''defgh'' @ [LF]), text_slot (''xyz'' @ [LF, LF] @ ''q'')],
               latest_response := 2\<rparr>) example_ws example_buf
       = redraw example_log example_ws example_buf"
proof -
  have f: "failed (responses example_log ! 1)"
    by (simp add: example_log_def failed_def zero_response_def)
  have l: "latest_response example_log \<le> length (responses example_log)"
    by (simp add: example_log_def)
  have flt: "filter (\<lambda>r. \<not> failed r) (take (latest_response example_log) (responses example_log)) =
       [text_slot (''ab'' @ [LF] @ ''c'' @ [TAB] @ ''defgh'' @ [LF]), text_slot (''xyz'' @ [LF, LF] @ ''q'')]"
    by (simp add: example_log_def failed_def zero_response_def text_slot_def)
  note inst = failed_slot_not_rendered [of "responses example_log" 1 4 "(3, 1, [])" example_log example_ws example_buf]
  have a: "resp_loop (responses example_log) 4 (Suc 1) (3, 1, []) = resp_loop (responses example_log) 4 1 (3, 1, [])"
    using inst f by blast
  have "redraw (example_log\<lparr>responses := filter (\<lambda>r. \<not> failed r)
                                  (take (latest_response example_log) (responses example_log)),
                    latest_response := length (filter (\<lambda>r. \<not> failed r)
                                  (take (latest_response example_log) (responses example_log)))\<rparr>)
          example_ws example_buf
        = redraw example_log example_ws example_buf"
    using inst l by blast
  then have b: "redraw (example_log\<lparr>responses :=
                 [text_slot (''ab'' @ [LF] @ ''c'' @ [TAB] @ ''defgh'' @ [LF]), text_slot (''xyz'' @ [LF, LF] @ ''q'')],
               latest_response := 2\<rparr>) example_ws example_buf
       = redraw example_log example_ws example_buf"
    by (simp add: flt numeral_2_eq_2)
  from f a l flt b show ?thesis by blast
qed

section \<open>Keys and wake-ups in the main loop\<close>

lemma takeWhile_update:
  "i < length (takeWhile P xs) \<Longrightarrow> \<not> P v \<Longrightarrow> takeWhile P (xs[i := v]) = take i xs"
proof (induction xs arbitrary: i)
  case Nil
  then show ?case by simp
next
  case (Cons x xs)
  then show ?case by (cases i) (auto split: if_splits)
qed

lemma c_str_erase_last:
  assumes "0 < strlen buf"
  shows "c_str (buf[strlen buf - 1 := NUL]) = butlast (c_str buf)"
proof -
  have "c_str (buf[strlen buf - 1 := NUL]) = take (strlen buf - 1) buf"
    unfolding c_str_def strlen_def
    using assms by (intro takeWhile_update) (simp_all add: strlen_def c_str_def)
  also have "\<dots> = take (strlen buf - 1) (take (strlen buf) buf)"
    by (simp add: min_def)
  also have "take (strlen buf) buf = c_str buf"
    by (simp add: strlen_def c_str_def takeWhile_eq_take [symmetric])
  finally show ?thesis
    by (simp add: butlast_conv_take strlen_def)
qed

text \<open>
  Claim C8. For every buffer, a backspace (8) or delete (127) key leaves the state as it
  is and the input line (the C string in the buffer) without its last character; on the
  empty input line the buffer stays as it is.
\<close>

theorem backspace_removes_last:
  assumes "c = DEL \<or> c = BS"
  shows "fst (read_char st buf c) = st
       \<and> c_str (snd (read_char st buf c)) = butlast (c_str buf)
       \<and> (c_str buf = [] \<longrightarrow> snd (read_char st buf c) = buf)
       \<and> length (snd (read_char st buf c)) = length buf"
proof (cases "0 < strlen buf")
  case True
  with assms c_str_erase_last [OF True] show ?thesis
    by (auto simp: read_char_def strlen_def)
next
  case False
  then have "c_str buf = []" by (simp add: strlen_def)
  with assms show ?thesis
    by (auto simp: read_char_def strlen_def)
qed

theorem backspace_removes_last_witness:
  "c_str example_buf = ''hello''
   \<and> c_str (snd (read_char init_state example_buf DEL)) = ''hell''
   \<and> fst (read_char init_state example_buf DEL) = init_state
   \<and> c_str (replicate 128 NUL) = []
   \<and> snd (read_char init_state (replicate 128 NUL) BS) = replicate 128 NUL"
proof -
  have e: "c_str example_buf = ''hello''"
    by (simp add: c_str_def example_buf_def)
  have z: "c_str (replicate 128 NUL) = []"
    by (simp add: c_str_def)
  show ?thesis
    using backspace_removes_last [of DEL init_state example_buf]
      backspace_removes_last [of BS init_state "replicate 128 NUL"] e z
    by simp
qed

lemma read_char_notify:
  "notify_ui_pipe (fst (read_char st buf c)) = notify_ui_pipe st"
  by (simp add: read_char_def send_request_def curl_multi_wakeup_def log_event_def Let_def)

lemma init_state_stdio: "stdin init_state = [] \<and> stdout init_state = []"
  by (simp add: init_state_def)

text \<open>
  Claim C1, as the code has it. A pass of the main loop that finds the wake pipe
  readable reads exactly one byte from it before the loop returns to \<open>poll\<close> (unless the
  key read in the same pass is the interrupt key, which ends the loop first). Bytes
  beyond the first stay in the pipe.
\<close>

theorem main_iter_reads_one_wake_byte:
  assumes "notify_ui_pipe st = b # bytes"
  shows "(\<exists>st' buf'. main_iter ws st buf = Inr (Break, st', buf')
            \<and> stdin st \<noteq> [] \<and> hd (stdin st) = ETX \<and> notify_ui_pipe st' = b # bytes)
       \<or> (\<exists>st' buf'. main_iter ws st buf = Inr (Continue, st', buf')
            \<and> notify_ui_pipe st' = bytes)"
proof (cases "stdin st")
  case Nil
  with assms show ?thesis by (simp add: main_iter_def Let_def)
next
  case (Cons c keys)
  show ?thesis
  proof (cases "c = ETX")
    case True
    with Cons assms show ?thesis by (simp add: main_iter_def Let_def)
  next
    case False
    obtain st2 buf2 where r: "read_char (st\<lparr>stdout := stdout st @ redraw st ws buf, stdin := keys\<rparr>) buf c = (st2, buf2)"
      by (cases "read_char (st\<lparr>stdout := stdout st @ redraw st ws buf, stdin := keys\<rparr>) buf c")
    have "notify_ui_pipe st2 = b # bytes"
      using read_char_notify [of "st\<lparr>stdout := stdout st @ redraw st ws buf, stdin := keys\<rparr>" buf c] r assms
      by simp
    with False Cons assms r show ?thesis by (simp add: main_iter_def Let_def)
  qed
qed

theorem main_iter_reads_one_wake_byte_witness:
  "notify_ui_pipe (init_state\<lparr>notify_ui_pipe := [NUL]\<rparr>) = [NUL]
   \<and> main_iter example_ws (init_state\<lparr>notify_ui_pipe := [NUL]\<rparr>) example_buf =
       Inr (Continue,
            init_state\<lparr>notify_ui_pipe := [],
                       stdout := [Term_clear, Term_set_cursor 4 1, Putchar CHR ''h'', Putchar CHR ''e'',
                                  Putchar CHR ''l'', Putchar CHR ''l'', Fflush]\<rparr>,
            example_buf)"
proof -
  have r: "redraw (init_state\<lparr>notify_ui_pipe := [NUL]\<rparr>) example_ws example_buf =
           [Term_clear, Term_set_cursor 4 1, Putchar CHR ''h'', Putchar CHR ''e'',
            Putchar CHR ''l'', Putchar CHR ''l'', Fflush]"
    by code_simp
  show ?thesis
    using main_iter_reads_one_wake_byte [of "init_state\<lparr>notify_ui_pipe := [NUL]\<rparr>" NUL "[]" example_ws example_buf]
    by (auto simp: main_iter_def Let_def r init_state_stdio)
qed

text \<open>
  Claim C1 as stated fails: with two wake bytes pending (two signals before the pass),
  the pass returns to \<open>poll\<close> with one byte still in the pipe, which is readable at once.
\<close>

theorem main_iter_leaves_wake_bytes:
  "main_iter example_ws (init_state\<lparr>notify_ui_pipe := [NUL, NUL]\<rparr>) example_buf =
     Inr (Continue,
          init_state\<lparr>notify_ui_pipe := [NUL],
                     stdout := [Term_clear, Term_set_cursor 4 1, Putchar CHR ''h'', Putchar CHR ''e'',
                                Putchar CHR ''l'', Putchar CHR ''l'', Fflush]\<rparr>,
          example_buf)"
proof -
  have r: "redraw (init_state\<lparr>notify_ui_pipe := [NUL, NUL]\<rparr>) example_ws example_buf =
           [Term_clear, Term_set_cursor 4 1, Putchar CHR ''h'', Putchar CHR ''e'',
            Putchar CHR ''l'', Putchar CHR ''l'', Fflush]"
    by code_simp
  show ?thesis
    by (simp add: main_iter_def Let_def r init_state_stdio)
qed

end
